theory Spec2Isabelle
  imports Main "HOL-Library.AList" "HOL-Library.Multiset"
begin

section \<open>The routing trie of src/router/trie-router/node.ts\<close>

text \<open>
  The trie is a graph of mutable JavaScript objects: \<open>Node\<close> objects, whose private fields
  \<open>#methods\<close>, \<open>#children\<close>, \<open>#patterns\<close>, \<open>#order\<close> and \<open>#params\<close> are written by
  \<open>insert\<close> and by \<open>search\<close>, and \<open>HandlerSet\<close> objects, whose \<open>params\<close> field is written
  by \<open>#getHandlerSets\<close>. Both kinds of object live in an explicit store: an object is
  its index in a list, a reference is an address, allocation appends to the list.

  What the model leaves out: numbers are naturals (the source's are doubles, exact up to
  \<open>2^53\<close>); the numeric ordering of integer-like property names is not modelled; a
  compiled \<open>RegExp\<close> without flags is the pure function \<open>test\<close> of its source.
\<close>

type_synonym addr = nat

datatype error = TypeError | PatternError

text \<open>
  \<open>Pattern\<close> of utils/url: the string \<open>'*'\<close>, or the triple \<open>[key, name, matcher]\<close> whose
  matcher is \<open>true\<close> or a \<open>RegExp\<close> (kept as its source text).
\<close>

datatype matcher = MTrue | MRegExp string

datatype pattern = Star | Pat string string matcher

text \<open>
  A parameter object carried by the traversal: the module-level singleton \<open>emptyParams\<close>,
  which the code recognises by identity, or an object created by \<open>{}\<close> or by the spread
  \<open>{ ...node.#params }\<close>, with its properties in insertion order. The second kind is
  never written after it has been stored or passed on, so it is modelled by its value.
\<close>

datatype params = EmptyParams | Obj "(string \<times> string) list"

text \<open>
  A value read from a parameter object: a string, or the value that an object created
  by \<open>{}\<close> inherits from \<open>Object.prototype\<close> under the given name (a built-in function,
  or the prototype itself for \<open>__proto__\<close>).
\<close>

datatype jsval = Str string | Inherited string

text \<open>
  The \<open>params\<close> object of a handler record, created by \<open>Object.create(null)\<close>: a property
  may hold \<open>undefined\<close> (\<open>None\<close>).
\<close>

type_synonym hparams = "(string \<times> jsval option) list"

text \<open>
  \<open>HandlerSet\<close>; \<open>possibleKeys\<close> may hold \<open>undefined\<close> (\<open>None\<close>), which is what
  \<open>pattern[1]\<close> yields for the string \<open>'*'\<close>. The field \<open>params\<close> is absent (\<open>None\<close>)
  until \<open>#getHandlerSets\<close> first writes it.
\<close>

record 'h handlerSet =
  hs_handler :: 'h
  hs_possibleKeys :: "string option list"
  hs_score :: nat
  hs_params :: "hparams option"

record node =
  n_methods :: "(string \<times> addr) list list"
  n_children :: "(string \<times> addr) list"
  n_patterns :: "pattern list"
  n_order :: nat
  n_params :: params

record 'h heap =
  nodes :: "node list"
  hsets :: "'h handlerSet list"

text \<open>
  What node.ts imports from ../../router and ../../utils/url, whose sources are not
  part of the verified files, together with \<open>RegExp.prototype.test\<close>: they are
  parameters of the model. \<open>getPattern\<close> may throw (it compiles the regex).
\<close>

record deps =
  METHOD_NAME_ALL :: string
  getPattern :: "string \<Rightarrow> error + pattern option"
  splitPath :: "string \<Rightarrow> string list"
  splitRoutingPath :: "string \<Rightarrow> string list"
  regexp_test :: "string \<Rightarrow> string \<Rightarrow> bool"

subsection \<open>Store operations\<close>

definition upd_node :: "addr \<Rightarrow> (node \<Rightarrow> node) \<Rightarrow> 'h heap \<Rightarrow> 'h heap" where
  "upd_node a f h = h\<lparr>nodes := (nodes h)[a := f (nodes h ! a)]\<rparr>"

definition upd_hset :: "addr \<Rightarrow> ('h handlerSet \<Rightarrow> 'h handlerSet) \<Rightarrow> 'h heap \<Rightarrow> 'h heap" where
  "upd_hset a f h = h\<lparr>hsets := (hsets h)[a := f (hsets h ! a)]\<rparr>"

text \<open>\<open>new Node()\<close>, the constructor called without arguments (lines 26-35).\<close>

definition new_Node :: "'h heap \<Rightarrow> 'h heap \<times> addr" where
  "new_Node h =
     (h\<lparr>nodes := nodes h @
          [\<lparr>n_methods = [], n_children = [], n_patterns = [], n_order = 0,
            n_params = EmptyParams\<rparr>]\<rparr>,
      length (nodes h))"

subsection \<open>insert (lines 37-80)\<close>

text \<open>\<open>pattern[1]\<close>: the name of a triple, \<open>undefined\<close> for the one-character string \<open>'*'\<close>.\<close>

fun pattern_name :: "pattern \<Rightarrow> string option" where
  "pattern_name Star = None"
| "pattern_name (Pat key name m) = Some name"

fun indexOf :: "'a list \<Rightarrow> 'a \<Rightarrow> nat option" where
  "indexOf [] v = None"
| "indexOf (x # xs) v = (if x = v then Some 0 else map_option Suc (indexOf xs v))"

text \<open>\<open>possibleKeys.filter((v, i, a) => a.indexOf(v) === i)\<close> (line 72).\<close>

definition dedup :: "'a list \<Rightarrow> 'a list" where
  "dedup a = map fst (filter (\<lambda>(v, i). indexOf a v = Some i) (zip a [0..<length a]))"

text \<open>The loop of lines 46-66; an exception of \<open>getPattern\<close> leaves the store as it is then.\<close>

fun insert_loop ::
  "deps \<Rightarrow> string list \<Rightarrow> addr \<Rightarrow> string option list \<Rightarrow> 'h heap \<Rightarrow>
   'h heap \<times> (error + addr \<times> string option list)" where
  "insert_loop imp [] curNode possibleKeys h = (h, Inr (curNode, possibleKeys))"
| "insert_loop imp (p # parts) curNode possibleKeys h =
     (case map_of (n_children (nodes h ! curNode)) p of
        Some c \<Rightarrow>
          (case getPattern imp p of
             Inl e \<Rightarrow> (h, Inl e)
           | Inr None \<Rightarrow> insert_loop imp parts c possibleKeys h
           | Inr (Some pattern) \<Rightarrow>
               insert_loop imp parts c (possibleKeys @ [pattern_name pattern]) h)
      | None \<Rightarrow>
          (let (h1, c) = new_Node h;
               h2 = upd_node curNode (\<lambda>n. n\<lparr>n_children := AList.update p c (n_children n)\<rparr>) h1
           in case getPattern imp p of
                Inl e \<Rightarrow> (h2, Inl e)
              | Inr None \<Rightarrow> insert_loop imp parts c possibleKeys h2
              | Inr (Some pattern) \<Rightarrow>
                  insert_loop imp parts c (possibleKeys @ [pattern_name pattern])
                    (upd_node curNode (\<lambda>n. n\<lparr>n_patterns := n_patterns n @ [pattern]\<rparr>) h2)))"

definition Node_insert ::
  "deps \<Rightarrow> addr \<Rightarrow> string \<Rightarrow> string \<Rightarrow> 'h \<Rightarrow> 'h heap \<Rightarrow> 'h heap \<times> (error + addr)" where
  "Node_insert imp this method path handler h =
     (let h1 = upd_node this (\<lambda>n. n\<lparr>n_order := n_order n + 1\<rparr>) h
      in case insert_loop imp (splitRoutingPath imp path) this [] h1 of
           (h2, Inl e) \<Rightarrow> (h2, Inl e)
         | (h2, Inr (curNode, possibleKeys)) \<Rightarrow>
             (let a = length (hsets h2);
                  handlerSet = \<lparr>hs_handler = handler, hs_possibleKeys = dedup possibleKeys,
                                hs_score = n_order (nodes h2 ! this), hs_params = None\<rparr>;
                  h3 = h2\<lparr>hsets := hsets h2 @ [handlerSet]\<rparr>
              in (upd_node curNode (\<lambda>n. n\<lparr>n_methods := n_methods n @ [[(method, a)]]\<rparr>) h3,
                  Inr curNode)))"

subsection \<open>#getHandlerSets (lines 82-108)\<close>

text \<open>The names of the properties of \<open>Object.prototype\<close>.\<close>

definition Object_prototype :: "string list" where
  "Object_prototype =
     [''constructor'', ''__defineGetter__'', ''__defineSetter__'', ''hasOwnProperty'',
      ''__lookupGetter__'', ''__lookupSetter__'', ''isPrototypeOf'', ''propertyIsEnumerable'',
      ''toString'', ''valueOf'', ''__proto__'', ''toLocaleString'']"

text \<open>
  \<open>obj[key]\<close> on a traversal parameter object, and \<open>params?.[key]\<close> on an optional one.
  \<open>emptyParams\<close> has no prototype; an object created by \<open>{}\<close> or by a spread has its own
  properties and, for the names it does not have, those of \<open>Object.prototype\<close>.
\<close>

fun pget :: "params \<Rightarrow> string \<Rightarrow> jsval option" where
  "pget EmptyParams k = None"
| "pget (Obj al) k =
     (case map_of al k of
        Some v \<Rightarrow> Some (Str v)
      | None \<Rightarrow> (if k \<in> set Object_prototype then Some (Inherited k) else None))"

fun opt_get :: "params option \<Rightarrow> string \<Rightarrow> jsval option" where
  "opt_get None k = None"
| "opt_get (Some p) k = pget p k"

text \<open>
  \<open>params[name] = v\<close> on an object created by \<open>{}\<close> or by a spread: the name
  \<open>__proto__\<close> is the accessor of \<open>Object.prototype\<close>, whose setter ignores a string;
  any other name becomes, or stays, an own property.
\<close>

definition assign :: "string \<Rightarrow> string \<Rightarrow> (string \<times> string) list \<Rightarrow> (string \<times> string) list" where
  "assign name v al = (if name = ''__proto__'' then al else AList.update name v al)"

text \<open>Truthiness of a value: defined, and not the empty string.\<close>

fun truthy :: "jsval option \<Rightarrow> bool" where
  "truthy None = False"
| "truthy (Some (Str v)) = (v \<noteq> [])"
| "truthy (Some (Inherited k)) = True"

text \<open>An element of \<open>possibleKeys\<close> used as a property name: \<open>undefined\<close> names the
  property \<open>"undefined"\<close>.\<close>

fun propertyKey :: "string option \<Rightarrow> string" where
  "propertyKey None = ''undefined''"
| "propertyKey (Some k) = k"

text \<open>
  The right-hand side of lines 100-101,
  \<open>params?.[key] && !processed ? params[key] : nodeParams[key] ?? params?.[key]\<close>.
\<close>

definition resolve_value :: "bool \<Rightarrow> params \<Rightarrow> params option \<Rightarrow> string \<Rightarrow> jsval option" where
  "resolve_value processed nodeParams params k =
     (if truthy (opt_get params k) \<and> \<not> processed then opt_get params k
      else (case pget nodeParams k of Some w \<Rightarrow> Some w | None \<Rightarrow> opt_get params k))"

text \<open>
  The loop of lines 97-103 over \<open>possibleKeys\<close>; \<open>processedSet\<close> is the list of the
  scores set to \<open>true\<close>, the last argument is \<open>handlerSet.params\<close> as built so far.
\<close>

fun resolve_keys ::
  "string option list \<Rightarrow> nat \<Rightarrow> params \<Rightarrow> params option \<Rightarrow> nat list \<Rightarrow> hparams \<Rightarrow> hparams" where
  "resolve_keys [] score nodeParams params processedSet hp = hp"
| "resolve_keys (key # keys) score nodeParams params processedSet hp =
     resolve_keys keys score nodeParams params (score # processedSet)
       (AList.update (propertyKey key)
          (resolve_value (score \<in> set processedSet) nodeParams params (propertyKey key)) hp)"

fun getHandlerSets_loop ::
  "deps \<Rightarrow> (string \<times> addr) list list \<Rightarrow> string \<Rightarrow> params \<Rightarrow> params option \<Rightarrow>
   'h heap \<times> addr list \<Rightarrow> 'h heap \<times> addr list" where
  "getHandlerSets_loop imp [] method nodeParams params (h, handlerSets) = (h, handlerSets)"
| "getHandlerSets_loop imp (m # ms) method nodeParams params (h, handlerSets) =
     (case (case map_of m method of Some a \<Rightarrow> Some a | None \<Rightarrow> map_of m (METHOD_NAME_ALL imp)) of
        None \<Rightarrow> getHandlerSets_loop imp ms method nodeParams params (h, handlerSets)
      | Some a \<Rightarrow>
          (let handlerSet = hsets h ! a;
               p = (if nodeParams \<noteq> EmptyParams \<or> (params \<noteq> None \<and> params \<noteq> Some EmptyParams)
                    then resolve_keys (hs_possibleKeys handlerSet) (hs_score handlerSet)
                           nodeParams params [] []
                    else [])
           in getHandlerSets_loop imp ms method nodeParams params
                (upd_hset a (\<lambda>s. s\<lparr>hs_params := Some p\<rparr>) h, handlerSets @ [a])))"

definition getHandlerSets ::
  "deps \<Rightarrow> addr \<Rightarrow> string \<Rightarrow> params \<Rightarrow> params option \<Rightarrow> 'h heap \<Rightarrow> 'h heap \<times> addr list" where
  "getHandlerSets imp node method nodeParams params h =
     getHandlerSets_loop imp (n_methods (nodes h ! node)) method nodeParams params (h, [])"

subsection \<open>search (lines 110-201)\<close>

text \<open>\<open>handlerSets.push(...this.#getHandlerSets(node, method, nodeParams, params))\<close>.\<close>

definition collect ::
  "deps \<Rightarrow> addr \<Rightarrow> string \<Rightarrow> params \<Rightarrow> params option \<Rightarrow> 'h heap \<times> addr list \<Rightarrow>
   'h heap \<times> addr list" where
  "collect imp node method nodeParams params s =
     (case s of (h, handlerSets) \<Rightarrow>
        (case getHandlerSets imp node method nodeParams params h of
           (h', found) \<Rightarrow> (h', handlerSets @ found)))"

text \<open>\<open>parts.slice(i).join('/')\<close> on the parts from the current one on.\<close>

fun join_slash :: "string list \<Rightarrow> string" where
  "join_slash [] = []"
| "join_slash [x] = x"
| "join_slash (x # y # ys) = x @ ''/'' @ join_slash (y # ys)"

fun is_RegExp :: "matcher \<Rightarrow> bool" where
  "is_RegExp MTrue = False"
| "is_RegExp (MRegExp src) = True"

text \<open>\<open>matcher === true || matcher.test(s)\<close>.\<close>

fun true_or_test :: "deps \<Rightarrow> matcher \<Rightarrow> string \<Rightarrow> bool" where
  "true_or_test imp MTrue s = True"
| "true_or_test imp (MRegExp src) s = regexp_test imp src s"

text \<open>\<open>matcher instanceof RegExp && matcher.test(s)\<close>.\<close>

fun regexp_and_test :: "deps \<Rightarrow> matcher \<Rightarrow> string \<Rightarrow> bool" where
  "regexp_and_test imp MTrue s = False"
| "regexp_and_test imp (MRegExp src) s = regexp_test imp src s"

text \<open>
  The state of the traversal: the store, \<open>handlerSets\<close> and \<open>tempNodes\<close>. A step returns
  the exception it raised, if any, with the state at that moment.
\<close>

type_synonym 'h sstate = "'h heap \<times> addr list \<times> addr list"

text \<open>
  One iteration of the loop over \<open>node.#patterns\<close> (lines 143-188). The only operation
  that can throw is the use of \<open>child\<close> when \<open>node.#children[key]\<close> is \<open>undefined\<close>.
\<close>

fun search_pattern ::
  "deps \<Rightarrow> string \<Rightarrow> addr \<Rightarrow> string \<Rightarrow> bool \<Rightarrow> string \<Rightarrow> pattern \<Rightarrow> 'h sstate \<Rightarrow>
   error option \<times> 'h sstate" where
  "search_pattern imp method node part isLast restPathString Star (h, handlerSets, tempNodes) =
     (case map_of (n_children (nodes h ! node)) ''*'' of
        None \<Rightarrow> (None, (h, handlerSets, tempNodes))
      | Some astNode \<Rightarrow>
          (case collect imp astNode method (n_params (nodes h ! node)) None (h, handlerSets) of
             (h', handlerSets') \<Rightarrow> (None, (h', handlerSets', tempNodes @ [astNode]))))"
| "search_pattern imp method node part isLast restPathString (Pat key name matcher)
       (h, handlerSets, tempNodes) =
     (if part = [] then (None, (h, handlerSets, tempNodes))
      else
        let nodeParams = n_params (nodes h ! node);
            params = (case nodeParams of EmptyParams \<Rightarrow> [] | Obj al \<Rightarrow> al);
            child = map_of (n_children (nodes h ! node)) key
        in if regexp_and_test imp matcher restPathString then
             (case child of
                None \<Rightarrow> (Some TypeError, (h, handlerSets, tempNodes))
              | Some c \<Rightarrow>
                  (case collect imp c method nodeParams
                          (Some (Obj (assign name restPathString params))) (h, handlerSets) of
                     (h', handlerSets') \<Rightarrow> (None, (h', handlerSets', tempNodes))))
           else if true_or_test imp matcher part then
             (case child of
                None \<Rightarrow> (Some TypeError, (h, handlerSets, tempNodes))
              | Some c \<Rightarrow>
                  (let params' = Obj (assign name part params)
                   in if isLast then
                        (case collect imp c method params' (Some nodeParams) (h, handlerSets) of
                           (h1, handlerSets1) \<Rightarrow>
                             (case map_of (n_children (nodes h1 ! c)) ''*'' of
                                None \<Rightarrow> (None, (h1, handlerSets1, tempNodes))
                              | Some ast \<Rightarrow>
                                  (case collect imp ast method params'
                                          (Some (n_params (nodes h1 ! node))) (h1, handlerSets1) of
                                     (h2, handlerSets2) \<Rightarrow> (None, (h2, handlerSets2, tempNodes)))))
                      else
                        (None, (upd_node c (\<lambda>n. n\<lparr>n_params := params'\<rparr>) h, handlerSets,
                                tempNodes @ [c]))))
           else (None, (h, handlerSets, tempNodes)))"

fun search_patterns ::
  "deps \<Rightarrow> string \<Rightarrow> addr \<Rightarrow> string \<Rightarrow> bool \<Rightarrow> string \<Rightarrow> pattern list \<Rightarrow> 'h sstate \<Rightarrow>
   error option \<times> 'h sstate" where
  "search_patterns imp method node part isLast restPathString [] s = (None, s)"
| "search_patterns imp method node part isLast restPathString (pattern # ps) s =
     (case search_pattern imp method node part isLast restPathString pattern s of
        (Some e, s') \<Rightarrow> (Some e, s')
      | (None, s') \<Rightarrow> search_patterns imp method node part isLast restPathString ps s')"

text \<open>The literal child of lines 126-141.\<close>

fun search_literal ::
  "deps \<Rightarrow> string \<Rightarrow> addr \<Rightarrow> string \<Rightarrow> bool \<Rightarrow> 'h sstate \<Rightarrow> 'h sstate" where
  "search_literal imp method node part isLast (h, handlerSets, tempNodes) =
     (case map_of (n_children (nodes h ! node)) part of
        None \<Rightarrow> (h, handlerSets, tempNodes)
      | Some nextNode \<Rightarrow>
          (let h1 = upd_node nextNode (\<lambda>n. n\<lparr>n_params := n_params (nodes h ! node)\<rparr>) h
           in if isLast then
                (case (case map_of (n_children (nodes h1 ! nextNode)) ''*'' of
                         None \<Rightarrow> (h1, handlerSets)
                       | Some ast \<Rightarrow>
                           collect imp ast method (n_params (nodes h1 ! node)) None
                             (h1, handlerSets)) of
                   (h2, handlerSets2) \<Rightarrow>
                     (case collect imp nextNode method (n_params (nodes h2 ! node)) None
                             (h2, handlerSets2) of
                        (h3, handlerSets3) \<Rightarrow> (h3, handlerSets3, tempNodes)))
              else (h1, handlerSets, tempNodes @ [nextNode])))"

text \<open>The body of the loop over \<open>curNodes\<close> (lines 125-188) for one node.\<close>

definition search_node ::
  "deps \<Rightarrow> string \<Rightarrow> string \<Rightarrow> bool \<Rightarrow> string \<Rightarrow> addr \<Rightarrow> 'h sstate \<Rightarrow>
   error option \<times> 'h sstate" where
  "search_node imp method part isLast restPathString node s =
     (let s1 = search_literal imp method node part isLast s
      in search_patterns imp method node part isLast restPathString
           (n_patterns (nodes (fst s1) ! node)) s1)"

fun search_nodes ::
  "deps \<Rightarrow> string \<Rightarrow> string \<Rightarrow> bool \<Rightarrow> string \<Rightarrow> addr list \<Rightarrow> 'h sstate \<Rightarrow>
   error option \<times> 'h sstate" where
  "search_nodes imp method part isLast restPathString [] s = (None, s)"
| "search_nodes imp method part isLast restPathString (node # curNodes) s =
     (case search_node imp method part isLast restPathString node s of
        (Some e, s') \<Rightarrow> (Some e, s')
      | (None, s') \<Rightarrow> search_nodes imp method part isLast restPathString curNodes s')"

text \<open>
  The loop over \<open>parts\<close> (lines 119-192), on the parts that remain: the current one is
  the last when none follows, and \<open>restPathString\<close> joins all that remain.
\<close>

fun search_parts ::
  "deps \<Rightarrow> string \<Rightarrow> string list \<Rightarrow> addr list \<Rightarrow> 'h heap \<times> addr list \<Rightarrow>
   error option \<times> 'h heap \<times> addr list" where
  "search_parts imp method [] curNodes (h, handlerSets) = (None, (h, handlerSets))"
| "search_parts imp method (part # rest) curNodes (h, handlerSets) =
     (case search_nodes imp method part (rest = []) (join_slash (part # rest)) curNodes
             (h, handlerSets, []) of
        (Some e, (h', handlerSets', tempNodes)) \<Rightarrow> (Some e, (h', handlerSets'))
      | (None, (h', handlerSets', tempNodes)) \<Rightarrow>
          search_parts imp method rest tempNodes (h', handlerSets'))"

text \<open>
  Lines 111-198: the handler records collected, sorted by score (\<open>Array.prototype.sort\<close>
  is stable, as \<open>sort_key\<close> is), as references into the store.
\<close>

definition search_sets ::
  "deps \<Rightarrow> addr \<Rightarrow> string \<Rightarrow> string \<Rightarrow> 'h heap \<Rightarrow> 'h heap \<times> (error + addr list)" where
  "search_sets imp this method path h =
     (let h0 = upd_node this (\<lambda>n. n\<lparr>n_params := EmptyParams\<rparr>) h
      in case search_parts imp method (splitPath imp path) [this] (h0, []) of
           (Some e, (h', handlerSets)) \<Rightarrow> (h', Inl e)
         | (None, (h', handlerSets)) \<Rightarrow>
             (h', Inr (if length handlerSets > 1
                       then sort_key (\<lambda>a. hs_score (hsets h' ! a)) handlerSets
                       else handlerSets)))"

text \<open>
  Line 200: each record is read when the result is built, after the whole traversal;
  the result is the one-element array holding the list of pairs.
\<close>

definition Node_search ::
  "deps \<Rightarrow> addr \<Rightarrow> string \<Rightarrow> string \<Rightarrow> 'h heap \<Rightarrow>
   'h heap \<times> (error + ('h \<times> hparams option) list list)" where
  "Node_search imp this method path h =
     (case search_sets imp this method path h of
        (h', Inl e) \<Rightarrow> (h', Inl e)
      | (h', Inr handlerSets) \<Rightarrow>
          (h', Inr [map (\<lambda>a. (hs_handler (hsets h' ! a), hs_params (hsets h' ! a))) handlerSets]))"


section \<open>The tokenizer of utils/url, for the scenarios\<close>

text \<open>
  The sources of \<open>splitPath\<close>, \<open>splitRoutingPath\<close> and \<open>getPattern\<close> are not among the
  verified files. The general properties below hold for any such functions; the
  scenarios need concrete ones, which this section models from the specification's
  description of the tokenizer and of the path syntax.
\<close>

fun add_char :: "char \<Rightarrow> string list \<Rightarrow> string list" where
  "add_char c [] = [[c]]"
| "add_char c (x # xs) = (c # x) # xs"

text \<open>\<open>path.split('/')\<close>: the text between the separators, the empty pieces included.\<close>

fun split_slash :: "string \<Rightarrow> string list" where
  "split_slash [] = [[]]"
| "split_slash (c # cs) =
     (if c = CHR ''/'' then [] # split_slash cs else add_char c (split_slash cs))"

definition splitPath_model :: "string \<Rightarrow> string list" where
  \<comment> \<open>Modelled from the spec: \<open>splitPath\<close> of utils/url (not among the sources), the
      lookup-time tokenizer "raw path string to ordered literal segment strings", a
      segment being "one /-delimited component of a URL path"; the empty piece before
      the leading separator is dropped, the one after a trailing separator is kept
      ("an empty segment text can arise from a trailing separator").\<close>
  "splitPath_model path = (case split_slash path of [] # ps \<Rightarrow> ps | ps \<Rightarrow> ps)"

text \<open>
  Splitting a route at the separators outside a constraint \<open>{...}\<close>: a group opens at a
  \<open>{\<close> that is followed by at least one character other than \<open>}\<close> and then a \<open>}\<close>;
  \<open>brace_group cs\<close> is the number of characters of such a group after its opening brace
  when \<open>cs\<close> follows the brace (0 when no group opens there). The first argument of
  \<open>split_route\<close> counts the characters still to read inside the current group.
\<close>

definition brace_group :: "string \<Rightarrow> nat" where
  "brace_group cs =
     (if takeWhile (\<lambda>d. d \<noteq> CHR ''}'') cs \<noteq> [] \<and> dropWhile (\<lambda>d. d \<noteq> CHR ''}'') cs \<noteq> []
      then length (takeWhile (\<lambda>d. d \<noteq> CHR ''}'') cs) + 1 else 0)"

fun split_route :: "nat \<Rightarrow> string \<Rightarrow> string list" where
  "split_route n [] = [[]]"
| "split_route n (c # cs) =
     (if n = 0 \<and> c = CHR ''/'' then [] # split_route 0 cs
      else add_char c
             (split_route (if n > 0 then n - 1
                           else if c = CHR ''{'' then brace_group cs else 0) cs))"

definition splitRoutingPath_model :: "string \<Rightarrow> string list" where
  \<comment> \<open>Modelled from the spec: \<open>splitRoutingPath\<close> of utils/url (not among the sources), the
      registration-time tokenizer; the path syntax is "literal segments; :name;
      :name{pattern}; *", and a constraint may contain the separator ("regex spanning
      segments"), so the route is split at the separators outside the braces.\<close>
  "splitRoutingPath_model path = (case split_route 0 path of [] # ps \<Rightarrow> ps | ps \<Rightarrow> ps)"

definition getPattern_model :: "string \<Rightarrow> error + pattern option" where
  \<comment> \<open>Modelled from the spec: \<open>getPattern\<close> of utils/url (not among the sources). A segment
      \<open>*\<close> is the wildcard, \<open>:name\<close> an unconstrained parameter, \<open>:name{pattern}\<close> a
      parameter constrained by the regex, anchored at both ends; anything else is literal
      text. The segment key is the segment's own text, "sufficient to deduplicate
      identical pattern declarations". The failure on a malformed regex is left out.\<close>
  "getPattern_model label =
     (if label = ''*'' then Inr (Some Star)
      else case label of
        [] \<Rightarrow> Inr None
      | c # r \<Rightarrow>
          (let name = takeWhile (\<lambda>d. d \<noteq> CHR ''{'' \<and> d \<noteq> CHR ''}'') r;
               tl' = dropWhile (\<lambda>d. d \<noteq> CHR ''{'' \<and> d \<noteq> CHR ''}'') r
           in if c \<noteq> CHR '':'' \<or> name = [] then Inr None
              else if tl' = [] then Inr (Some (Pat label name MTrue))
              else if hd tl' = CHR ''{'' \<and> last tl' = CHR ''}'' \<and> length tl' \<ge> 3
                   then Inr (Some (Pat label name (MRegExp (''^'' @ butlast (tl tl') @ ''$''))))
              else Inr None))"

text \<open>The tokenizer model, with the sentinel \<open>'ALL'\<close>, over a regex engine \<open>rx\<close>.\<close>

definition url_model :: "(string \<Rightarrow> string \<Rightarrow> bool) \<Rightarrow> deps" where
  \<comment> \<open>Modelled from the spec: the constant \<open>METHOD_NAME_ALL\<close> of router.ts (not among the
      sources), the "ALL-methods sentinel".\<close>
  "url_model rx =
     \<lparr>METHOD_NAME_ALL = ''ALL'', getPattern = getPattern_model, splitPath = splitPath_model,
      splitRoutingPath = splitRoutingPath_model, regexp_test = rx\<rparr>"

text \<open>The trie \<open>new Node()\<close>: one node, at address 0, and no handler record.\<close>

definition empty_trie :: "'h heap" where
  "empty_trie = fst (new_Node \<lparr>nodes = [], hsets = []\<rparr>)"

text \<open>
  A sequence of registrations \<open>(method, path, handler)\<close> at the root, in order; a
  registration that throws leaves what it has written and the next one goes on.
\<close>

fun inserts :: "deps \<Rightarrow> (string \<times> string \<times> 'h) list \<Rightarrow> 'h heap \<Rightarrow> 'h heap" where
  "inserts imp [] h = h"
| "inserts imp ((method, path, handler) # rs) h =
     inserts imp rs (fst (Node_insert imp 0 method path handler h))"


text \<open>
  The route of the rest-of-path scenario, \<open>/js/:filename{[a-z0-9/]+\.js}\<close>, the source
  of the regex \<open>getPattern\<close> compiles for it, and a regex engine that knows this one
  regex: a non-empty run of \<open>a-z\<close>, \<open>0-9\<close> and \<open>/\<close>, followed by \<open>.js\<close>.
\<close>

definition js_route :: string where
  "js_route = ''/js/:filename{[a-z0-9/]+'' @ [CHR 0x5C] @ ''.js}''"

definition js_regexp :: string where
  "js_regexp = ''^[a-z0-9/]+'' @ [CHR 0x5C] @ ''.js$''"

definition js_engine :: "string \<Rightarrow> string \<Rightarrow> bool" where
  "js_engine src s =
     (src = js_regexp \<and> 3 < length s \<and> drop (length s - 3) s = ''.js'' \<and>
      list_all (\<lambda>c. c \<in> set ''abcdefghijklmnopqrstuvwxyz0123456789/'') (take (length s - 3) s))"

section \<open>The event adapter (handle and streamHandle)\<close>

text \<open>
  The adapter turns a gateway event into a request, passes it to the application and
  turns the response into a gateway result. A promise that rejects and a call that
  throws are the left summand. The steps the two entry points call are parameters:
  \<open>processor.createRequest\<close> (lines 186-224, which ends in \<open>new Request\<close>), \<open>app.fetch\<close>,
  \<open>processor.createResult\<close> (lines 226-250), and the reading of the response: its
  status, its headers and its body, absent or a sequence of chunks that the reader
  yields before it is done or fails.
\<close>

record ('ev, 'req, 'res, 'out, 'x) adapter =
  createRequest :: "'ev \<Rightarrow> 'x + 'req"
  fetch :: "'req \<Rightarrow> 'ev \<Rightarrow> 'x + 'res"
  createResult :: "'ev \<Rightarrow> 'res \<Rightarrow> 'x + 'out"
  res_status :: "'res \<Rightarrow> nat"
  res_headers :: "'res \<Rightarrow> (string \<times> string) list"
  res_body :: "'res \<Rightarrow> (string list \<times> 'x option) option"

text \<open>\<open>handle\<close> (lines 153-173): no \<open>try\<close>; the promise it returns rejects with
  whatever a step throws.\<close>

definition handle :: "('ev, 'req, 'res, 'out, 'x) adapter \<Rightarrow> 'ev \<Rightarrow> 'x + 'out" where
  "handle env event =
     (case createRequest env event of
        Inl x \<Rightarrow> Inl x
      | Inr req \<Rightarrow>
          (case fetch env req event of
             Inl x \<Rightarrow> Inl x
           | Inr res \<Rightarrow> createResult env event res))"

text \<open>The response stream of the host: the metadata set by \<open>HttpResponseStream.from\<close>,
  the chunks written, and whether \<open>end\<close> was called.\<close>

record responseStream =
  metadata :: "(nat \<times> (string \<times> string) list) option"
  written :: "string list"
  ended :: bool

definition stream_write :: "string \<Rightarrow> responseStream \<Rightarrow> responseStream" where
  "stream_write chunk rs = rs\<lparr>written := written rs @ [chunk]\<rparr>"

definition stream_end :: "responseStream \<Rightarrow> responseStream" where
  "stream_end rs = rs\<lparr>ended := True\<rparr>"

text \<open>\<open>streamToNodeStream\<close> (lines 94-104): every chunk read is written; \<open>writer.end()\<close> is
  reached when the reader is done, not when a read fails.\<close>

definition streamToNodeStream ::
  "string list \<times> 'x option \<Rightarrow> responseStream \<Rightarrow> responseStream \<times> 'x option" where
  "streamToNodeStream reader writer =
     (case reader of (chunks, failure) \<Rightarrow>
        (let w = foldl (\<lambda>rs c. stream_write c rs) writer chunks
         in case failure of None \<Rightarrow> (stream_end w, None) | Some x \<Rightarrow> (w, Some x)))"

text \<open>The \<open>try\<close> block of \<open>streamHandle\<close> (lines 117-139): the stream as it stands when
  the block is left, and the exception that left it, if any.\<close>

definition streamHandle_try ::
  "('ev, 'req, 'res, 'out, 'x) adapter \<Rightarrow> 'ev \<Rightarrow> responseStream \<Rightarrow> responseStream \<times> 'x option" where
  "streamHandle_try env event rs =
     (case createRequest env event of
        Inl x \<Rightarrow> (rs, Some x)
      | Inr req \<Rightarrow>
          (case fetch env req event of
             Inl x \<Rightarrow> (rs, Some x)
           | Inr res \<Rightarrow>
               (let rs1 = rs\<lparr>metadata := Some (res_status env res, res_headers env res)\<rparr>
                in case res_body env res of
                     Some reader \<Rightarrow> streamToNodeStream reader rs1
                   | None \<Rightarrow> (stream_write [] rs1, None))))"

text \<open>\<open>streamHandle\<close> (lines 106-148): \<open>catch\<close> writes the fixed text, \<open>finally\<close> ends the
  stream; the logging to the console is left out.\<close>

definition streamHandle ::
  "('ev, 'req, 'res, 'out, 'x) adapter \<Rightarrow> 'ev \<Rightarrow> responseStream \<Rightarrow> responseStream" where
  "streamHandle env event rs =
     (case streamHandle_try env event rs of
        (rs1, None) \<Rightarrow> stream_end rs1
      | (rs1, Some x) \<Rightarrow> stream_end (stream_write ''Internal Server Error'' rs1))"

text \<open>
  A platform for a concrete run: an event is its method and its body, a request is
  built unless the method is \<open>GET\<close> or \<open>HEAD\<close>, in any letter case, and the body is a
  non-empty string (the \<open>Request\<close> constructor normalises the method and throws a
  \<open>TypeError\<close> then), and the application answers 200.
\<close>

definition ascii_upper :: "char \<Rightarrow> char" where
  "ascii_upper c =
     (case map_of (zip ''abcdefghijklmnopqrstuvwxyz'' ''ABCDEFGHIJKLMNOPQRSTUVWXYZ'') c of
        Some u \<Rightarrow> u
      | None \<Rightarrow> c)"

definition demo_adapter ::
  "(string \<times> string option, string \<times> string option, nat, nat \<times> string, string) adapter" where
  "demo_adapter =
     \<lparr>createRequest = (\<lambda>(m, b). if (map ascii_upper m = ''GET'' \<or> map ascii_upper m = ''HEAD'')
                                     \<and> b \<noteq> None \<and> b \<noteq> Some []
                                  then Inl ''TypeError'' else Inr (m, b)),
      fetch = (\<lambda>req ev. Inr 200),
      createResult = (\<lambda>ev res. Inr (res, ''ok'')),
      res_status = (\<lambda>res. res),
      res_headers = (\<lambda>res. []),
      res_body = (\<lambda>res. Some ([''ok''], None))\<rparr>"

definition fresh_stream :: responseStream where
  "fresh_stream = \<lparr>metadata = None, written = [], ended = False\<rparr>"

section \<open>Notions the properties are stated with\<close>

text \<open>
  The trie as \<open>insert\<close> builds it: the store with the two fields that \<open>search\<close> writes,
  \<open>#params\<close> of a node and \<open>params\<close> of a handler record, reset to their initial values.
\<close>

definition skeleton :: "'h heap \<Rightarrow> 'h heap" where
  "skeleton h =
     \<lparr>nodes = map (\<lambda>n. n\<lparr>n_params := EmptyParams\<rparr>) (nodes h),
      hsets = map (\<lambda>s. s\<lparr>hs_params := None\<rparr>) (hsets h)\<rparr>"











text \<open>
  A resolution pass: one record returned by one call of \<open>#getHandlerSets\<close>, with the
  \<open>nodeParams\<close> and \<open>params\<close> arguments of that call.
\<close>

type_synonym pass = "addr \<times> params \<times> params option"

text \<open>
  The object a resolution pass stores in the record's \<open>params\<close> field (lines 94-104):
  empty when the condition of line 96 fails, the resolved possible keys otherwise.
\<close>

definition pass_bindings :: "params \<Rightarrow> params option \<Rightarrow> 'h handlerSet \<Rightarrow> hparams" where
  "pass_bindings nodeParams params handlerSet =
     (if nodeParams \<noteq> EmptyParams \<or> (params \<noteq> None \<and> params \<noteq> Some EmptyParams)
      then resolve_keys (hs_possibleKeys handlerSet) (hs_score handlerSet) nodeParams params [] []
      else [])"

text \<open>
  The traversal once more, as a ghost: the same branches over the same states, returning
  not the state but the list of the resolution passes made, in the order in which the
  code makes them. Each function below follows the function of the same name without
  the suffix and calls it for the states in between.
\<close>

definition collect_log ::
  "deps \<Rightarrow> addr \<Rightarrow> string \<Rightarrow> params \<Rightarrow> params option \<Rightarrow> 'h heap \<Rightarrow> pass list" where
  "collect_log imp node meth nodeParams params h =
     map (\<lambda>a. (a, nodeParams, params)) (snd (getHandlerSets imp node meth nodeParams params h))"

fun search_pattern_log ::
  "deps \<Rightarrow> string \<Rightarrow> addr \<Rightarrow> string \<Rightarrow> bool \<Rightarrow> string \<Rightarrow> pattern \<Rightarrow> 'h sstate \<Rightarrow> pass list" where
  "search_pattern_log imp meth node part isLast restPathString Star (h, handlerSets, tempNodes) =
     (case map_of (n_children (nodes h ! node)) ''*'' of
        None \<Rightarrow> []
      | Some astNode \<Rightarrow> collect_log imp astNode meth (n_params (nodes h ! node)) None h)"
| "search_pattern_log imp meth node part isLast restPathString (Pat key name matcher)
       (h, handlerSets, tempNodes) =
     (if part = [] then []
      else
        let nodeParams = n_params (nodes h ! node);
            params = (case nodeParams of EmptyParams \<Rightarrow> [] | Obj al \<Rightarrow> al);
            child = map_of (n_children (nodes h ! node)) key
        in if regexp_and_test imp matcher restPathString then
             (case child of
                None \<Rightarrow> []
              | Some c \<Rightarrow>
                  collect_log imp c meth nodeParams
                    (Some (Obj (assign name restPathString params))) h)
           else if true_or_test imp matcher part then
             (case child of
                None \<Rightarrow> []
              | Some c \<Rightarrow>
                  (let params' = Obj (assign name part params)
                   in if isLast then
                        collect_log imp c meth params' (Some nodeParams) h @
                        (case collect imp c meth params' (Some nodeParams) (h, handlerSets) of
                           (h1, handlerSets1) \<Rightarrow>
                             (case map_of (n_children (nodes h1 ! c)) ''*'' of
                                None \<Rightarrow> []
                              | Some ast \<Rightarrow>
                                  collect_log imp ast meth params'
                                    (Some (n_params (nodes h1 ! node))) h1))
                      else []))
           else [])"

fun search_patterns_log ::
  "deps \<Rightarrow> string \<Rightarrow> addr \<Rightarrow> string \<Rightarrow> bool \<Rightarrow> string \<Rightarrow> pattern list \<Rightarrow> 'h sstate \<Rightarrow>
   pass list" where
  "search_patterns_log imp meth node part isLast restPathString [] s = []"
| "search_patterns_log imp meth node part isLast restPathString (pattern # ps) s =
     search_pattern_log imp meth node part isLast restPathString pattern s @
     (case search_pattern imp meth node part isLast restPathString pattern s of
        (Some e, s') \<Rightarrow> []
      | (None, s') \<Rightarrow> search_patterns_log imp meth node part isLast restPathString ps s')"

fun search_literal_log ::
  "deps \<Rightarrow> string \<Rightarrow> addr \<Rightarrow> string \<Rightarrow> bool \<Rightarrow> 'h sstate \<Rightarrow> pass list" where
  "search_literal_log imp meth node part isLast (h, handlerSets, tempNodes) =
     (case map_of (n_children (nodes h ! node)) part of
        None \<Rightarrow> []
      | Some nextNode \<Rightarrow>
          (let h1 = upd_node nextNode (\<lambda>n. n\<lparr>n_params := n_params (nodes h ! node)\<rparr>) h
           in if isLast then
                (case map_of (n_children (nodes h1 ! nextNode)) ''*'' of
                   None \<Rightarrow> collect_log imp nextNode meth (n_params (nodes h1 ! node)) None h1
                 | Some ast \<Rightarrow>
                     collect_log imp ast meth (n_params (nodes h1 ! node)) None h1 @
                     (case collect imp ast meth (n_params (nodes h1 ! node)) None
                             (h1, handlerSets) of
                        (h2, handlerSets2) \<Rightarrow>
                          collect_log imp nextNode meth (n_params (nodes h2 ! node)) None h2))
              else []))"

definition search_node_log ::
  "deps \<Rightarrow> string \<Rightarrow> string \<Rightarrow> bool \<Rightarrow> string \<Rightarrow> addr \<Rightarrow> 'h sstate \<Rightarrow> pass list" where
  "search_node_log imp meth part isLast restPathString node s =
     search_literal_log imp meth node part isLast s @
     search_patterns_log imp meth node part isLast restPathString
       (n_patterns (nodes (fst (search_literal imp meth node part isLast s)) ! node))
       (search_literal imp meth node part isLast s)"

fun search_nodes_log ::
  "deps \<Rightarrow> string \<Rightarrow> string \<Rightarrow> bool \<Rightarrow> string \<Rightarrow> addr list \<Rightarrow> 'h sstate \<Rightarrow> pass list" where
  "search_nodes_log imp meth part isLast restPathString [] s = []"
| "search_nodes_log imp meth part isLast restPathString (node # curNodes) s =
     search_node_log imp meth part isLast restPathString node s @
     (case search_node imp meth part isLast restPathString node s of
        (Some e, s') \<Rightarrow> []
      | (None, s') \<Rightarrow> search_nodes_log imp meth part isLast restPathString curNodes s')"

fun search_parts_log ::
  "deps \<Rightarrow> string \<Rightarrow> string list \<Rightarrow> addr list \<Rightarrow> 'h heap \<times> addr list \<Rightarrow> pass list" where
  "search_parts_log imp meth [] curNodes (h, handlerSets) = []"
| "search_parts_log imp meth (part # rest) curNodes (h, handlerSets) =
     search_nodes_log imp meth part (rest = []) (join_slash (part # rest)) curNodes
       (h, handlerSets, []) @
     (case search_nodes imp meth part (rest = []) (join_slash (part # rest)) curNodes
             (h, handlerSets, []) of
        (Some e, s') \<Rightarrow> []
      | (None, (h', handlerSets', tempNodes)) \<Rightarrow>
          search_parts_log imp meth rest tempNodes (h', handlerSets'))"

definition search_log :: "deps \<Rightarrow> addr \<Rightarrow> string \<Rightarrow> string \<Rightarrow> 'h heap \<Rightarrow> pass list" where
  "search_log imp this meth path h =
     search_parts_log imp meth (splitPath imp path) [this]
       (upd_node this (\<lambda>n. n\<lparr>n_params := EmptyParams\<rparr>) h, [])"

text \<open>The arguments of the last pass over the record \<open>a\<close> in a log, if there is one.\<close>

definition last_pass :: "pass list \<Rightarrow> addr \<Rightarrow> (params \<times> params option) option" where
  "last_pass log a = map_of (rev log) a"

text \<open>
  The store \<open>h\<close> is the store \<open>h0\<close> after the passes of the log: nothing but the two
  written fields differs, and every record holds the bindings of the last pass over it,
  or what it held in \<open>h0\<close> when no pass touched it.
\<close>

definition replayed :: "'h heap \<Rightarrow> pass list \<Rightarrow> 'h heap \<Rightarrow> bool" where
  "replayed h0 log h \<longleftrightarrow>
     skeleton h = skeleton h0 \<and>
     (\<forall>a < length (hsets h0).
        hs_params (hsets h ! a) =
          (case last_pass log a of
             None \<Rightarrow> hs_params (hsets h0 ! a)
           | Some (np, p) \<Rightarrow> Some (pass_bindings np p (hsets h0 ! a))))"

text \<open>Tries of one route, used as concrete inputs.\<close>

definition trie_of :: "string \<Rightarrow> nat heap" where
  "trie_of route = inserts (url_model js_engine) [(''GET'', route, 7)] empty_trie"

section \<open>Properties\<close>

lemmas trie_defs = url_model_def empty_trie_def new_Node_def Node_insert_def Node_search_def
  search_sets_def search_node_def collect_def getHandlerSets_def upd_node_def upd_hset_def
  splitPath_model_def splitRoutingPath_model_def getPattern_model_def brace_group_def
  dedup_def trie_of_def resolve_value_def assign_def Object_prototype_def Let_def

subsection \<open>What search writes\<close>

lemma map_update_same:
  assumes "f y = f (xs ! a)"
  shows "map f (xs[a := y]) = map f xs"
proof (cases "a < length xs")
  case True
  have "map f (xs[a := y]) = (map f xs)[a := f y]" by (rule map_update)
  also have "\<dots> = (map f xs)[a := (map f xs) ! a]" using assms True by simp
  also have "\<dots> = map f xs" by (rule list_update_id)
  finally show ?thesis .
next
  case False
  then have "length xs \<le> a" by simp
  then show ?thesis by (simp add: list_update_beyond)
qed

lemma skeleton_upd_node_params [simp]:
  "skeleton (upd_node a (\<lambda>n. n\<lparr>n_params := p n\<rparr>) h) = skeleton h"
  by (simp add: skeleton_def upd_node_def map_update_same)

lemma skeleton_upd_hset_params [simp]:
  "skeleton (upd_hset a (\<lambda>s. s\<lparr>hs_params := p s\<rparr>) h) = skeleton h"
  by (simp add: skeleton_def upd_hset_def map_update_same)

lemma skeleton_getHandlerSets_loop:
  "skeleton (fst (getHandlerSets_loop imp ms method np p (h, acc))) = skeleton h"
  by (induction ms arbitrary: h acc) (auto simp: Let_def split: option.splits)

lemma skeleton_getHandlerSets [simp]:
  "skeleton (fst (getHandlerSets imp node method np p h)) = skeleton h"
  by (simp add: getHandlerSets_def skeleton_getHandlerSets_loop)

lemma skeleton_collect [simp]:
  "skeleton (fst (collect imp node meth np p (h, acc))) = skeleton h"
  using skeleton_getHandlerSets [of imp node meth np p h]
  by (cases "getHandlerSets imp node meth np p h") (simp add: collect_def)

lemma skeleton_collect':
  "collect imp node meth np p (h, acc) = (h', acc') \<Longrightarrow> skeleton h' = skeleton h"
  using skeleton_collect [of imp node meth np p h acc] by simp

lemma skeleton_search_pattern:
  "search_pattern imp method node part isLast rest pat (h, hsl, tmp) = (e, (h', hsl', tmp'))
   \<Longrightarrow> skeleton h' = skeleton h"
  by (cases pat)
     (auto simp: Let_def split: if_splits option.splits prod.splits dest!: skeleton_collect')

lemma skeleton_search_patterns:
  "search_patterns imp method node part isLast rest ps (h, hsl, tmp) = (e, (h', hsl', tmp'))
   \<Longrightarrow> skeleton h' = skeleton h"
proof (induction ps arbitrary: h hsl tmp)
  case Nil
  then show ?case by simp
next
  case (Cons pat ps)
  obtain e1 h1 hsl1 tmp1 where
    st: "search_pattern imp method node part isLast rest pat (h, hsl, tmp) = (e1, (h1, hsl1, tmp1))"
    by (metis prod_cases3)
  have k1: "skeleton h1 = skeleton h" using st by (rule skeleton_search_pattern)
  show ?case
  proof (cases e1)
    case None
    with Cons.prems st have
      "search_patterns imp method node part isLast rest ps (h1, hsl1, tmp1) = (e, (h', hsl', tmp'))"
      by simp
    then have "skeleton h' = skeleton h1" by (rule Cons.IH)
    with k1 show ?thesis by simp
  next
    case (Some err)
    with Cons.prems st have "h' = h1" by simp
    with k1 show ?thesis by simp
  qed
qed

lemma skeleton_search_literal:
  "search_literal imp method node part isLast (h, hsl, tmp) = (h', hsl', tmp')
   \<Longrightarrow> skeleton h' = skeleton h"
  by (auto simp: Let_def split: if_splits option.splits prod.splits dest!: skeleton_collect')

lemma skeleton_search_node:
  assumes "search_node imp method part isLast rest node (h, hsl, tmp) = (e, (h', hsl', tmp'))"
  shows "skeleton h' = skeleton h"
proof -
  obtain h1 hsl1 tmp1 where
    l: "search_literal imp method node part isLast (h, hsl, tmp) = (h1, hsl1, tmp1)"
    by (metis prod_cases3)
  have "skeleton h1 = skeleton h" using l by (rule skeleton_search_literal)
  moreover have "skeleton h' = skeleton h1"
    using assms l by (auto simp: search_node_def dest: skeleton_search_patterns)
  ultimately show ?thesis by simp
qed

lemma skeleton_search_nodes:
  "search_nodes imp method part isLast rest cur (h, hsl, tmp) = (e, (h', hsl', tmp'))
   \<Longrightarrow> skeleton h' = skeleton h"
proof (induction cur arbitrary: h hsl tmp)
  case Nil
  then show ?case by simp
next
  case (Cons node cur)
  obtain e1 h1 hsl1 tmp1 where
    st: "search_node imp method part isLast rest node (h, hsl, tmp) = (e1, (h1, hsl1, tmp1))"
    by (metis prod_cases3)
  have k1: "skeleton h1 = skeleton h" using st by (rule skeleton_search_node)
  show ?case
  proof (cases e1)
    case None
    with Cons.prems st have
      "search_nodes imp method part isLast rest cur (h1, hsl1, tmp1) = (e, (h', hsl', tmp'))"
      by simp
    then have "skeleton h' = skeleton h1" by (rule Cons.IH)
    with k1 show ?thesis by simp
  next
    case (Some err)
    with Cons.prems st have "h' = h1" by simp
    with k1 show ?thesis by simp
  qed
qed

lemma skeleton_search_parts:
  "search_parts imp method parts cur (h, hsl) = (e, (h', hsl')) \<Longrightarrow> skeleton h' = skeleton h"
proof (induction parts arbitrary: cur h hsl)
  case Nil
  then show ?case by simp
next
  case (Cons part rest)
  obtain e1 h1 hsl1 tmp1 where
    st: "search_nodes imp method part (rest = []) (join_slash (part # rest)) cur (h, hsl, [])
         = (e1, (h1, hsl1, tmp1))"
    by (metis prod_cases3)
  have k1: "skeleton h1 = skeleton h" using st by (rule skeleton_search_nodes)
  show ?case
  proof (cases e1)
    case None
    with Cons.prems st have "search_parts imp method rest tmp1 (h1, hsl1) = (e, (h', hsl'))"
      by simp
    then have "skeleton h' = skeleton h1" by (rule Cons.IH)
    with k1 show ?thesis by simp
  next
    case (Some err)
    with Cons.prems st have "h' = h1" by simp
    with k1 show ?thesis by simp
  qed
qed

lemma skeleton_search_sets:
  "skeleton (fst (search_sets imp this method path h)) = skeleton h"
proof -
  let ?h0 = "upd_node this (\<lambda>n. n\<lparr>n_params := EmptyParams\<rparr>) h"
  obtain e h' hsl where
    st: "search_parts imp method (splitPath imp path) [this] (?h0, []) = (e, (h', hsl))"
    by (metis prod_cases3)
  have "skeleton h' = skeleton ?h0" using st by (rule skeleton_search_parts)
  then have "skeleton h' = skeleton h" by simp
  then show ?thesis using st by (cases e) (simp_all add: search_sets_def)
qed

text \<open>
  C1, as the code has it. \<open>search\<close> leaves the trie that \<open>insert\<close> built as it is: no
  node or handler record is created, and the children, patterns, method maps and order
  counter of every node and the handler, possible keys and score of every handler
  record are unchanged. The two fields left out of \<open>skeleton\<close> are the ones it does
  write: \<open>#params\<close> of nodes (the root's is reset, and the inherited parameter map is
  stored on the literal and named-parameter children it reaches), and \<open>params\<close> of the
  handler records it collects, which receives the resolved parameters.
\<close>

theorem C1_search_frame:
  "skeleton (fst (Node_search imp this meth path h)) = skeleton h"
  using skeleton_search_sets [of imp this meth path h]
  by (auto simp: Node_search_def split: prod.splits sum.splits)

text \<open>
  C1 as stated fails. With the route \<open>/:x/b\<close> registered, \<open>search(GET, "/v/b")\<close>
  writes the map \<open>{x: "v"}\<close> into \<open>#params\<close> of the node of \<open>:x\<close>, which held
  \<open>emptyParams\<close>, and \<open>{x: "v"}\<close> into \<open>params\<close> of the handler record, which had no
  such field: the store after the search differs from the store before.
\<close>

theorem C1_counterexample:
  "n_params (nodes (trie_of ''/:x/b'') ! 1) = EmptyParams
   \<and> n_params (nodes (fst (Node_search (url_model js_engine) 0 ''GET'' ''/v/b''
                              (trie_of ''/:x/b''))) ! 1) = Obj [(''x'', ''v'')]
   \<and> hs_params (hsets (trie_of ''/:x/b'') ! 0) = None
   \<and> hs_params (hsets (fst (Node_search (url_model js_engine) 0 ''GET'' ''/v/b''
                               (trie_of ''/:x/b''))) ! 0) = Some [(''x'', Some (Str ''v''))]
   \<and> fst (Node_search (url_model js_engine) 0 ''GET'' ''/v/b'' (trie_of ''/:x/b''))
       \<noteq> trie_of ''/:x/b''"
  by (simp add: trie_defs)

subsection \<open>Resolution of the possible keys\<close>


text \<open>
  C2 fails on the code for the first name of a record. With the one route \<open>/:a/:a\<close>,
  \<open>search(GET, "/x/y")\<close> resolves the record at line 177 with the match-time map
  \<open>{a: "y"}\<close> (passed as \<open>nodeParams\<close>) and the inherited map \<open>{a: "x"}\<close> (passed as
  \<open>params\<close>): the name \<open>a\<close> is bound to \<open>x\<close>, the inherited value, although the
  match-time map binds it. With the one route \<open>/:b/:a/:a\<close>, where \<open>a\<close> is the second
  name of the record, \<open>search(GET, "/x/y/z")\<close> binds it to \<open>z\<close>, the match-time value:
  the guard \<open>processedSet\<close> is set after the first name only, so the first name and the
  later ones are resolved in opposite orders.
\<close>

theorem C2_first_key_takes_inherited:
  "snd (Node_search (url_model js_engine) 0 ''GET'' ''/x/y'' (trie_of ''/:a/:a''))
     = Inr [[(7, Some [(''a'', Some (Str ''x''))])]]
   \<and> resolve_keys [Some ''a''] 1 (Obj [(''a'', ''y'')]) (Some (Obj [(''a'', ''x'')])) [] []
     = [(''a'', Some (Str ''x''))]
   \<and> snd (Node_search (url_model js_engine) 0 ''GET'' ''/x/y/z'' (trie_of ''/:b/:a/:a''))
     = Inr [[(7, Some [(''b'', Some (Str ''x'')), (''a'', Some (Str ''z''))])]]"
  by (simp add: trie_defs)

subsection \<open>The empty segment and the wildcard\<close>

lemma search_pattern_empty_part:
  "search_pattern imp method node [] isLast rest (Pat key name m) s = (None, s)"
  by (cases s) simp

lemma search_patterns_empty_part:
  "search_patterns imp method node [] isLast rest ps s
   = search_patterns imp method node [] isLast rest (filter (\<lambda>p. p = Star) ps) s"
proof (induction ps arbitrary: s)
  case Nil
  show ?case by simp
next
  case (Cons pat ps)
  show ?case
  proof (cases pat)
    case Star
    then show ?thesis using Cons.IH by (simp split: prod.splits option.splits)
  next
    case (Pat key name m)
    then show ?thesis using Cons.IH by (simp add: search_pattern_empty_part)
  qed
qed

lemma search_pattern_Star_any_part:
  "search_pattern imp method node part isLast rest Star s
   = search_pattern imp method node part' isLast' rest' Star s"
  by (cases s) simp

text \<open>
  C4, as the code has it. At an empty segment the step of a frontier node is its
  literal child step followed by its wildcard patterns alone: every named-parameter
  pattern, constrained or not, is skipped and leaves the state as it is. The wildcard
  pattern is not skipped: its step does not depend on the segment at all (nor on the
  position in the path), so it matches any one segment, the empty one included.
\<close>

theorem C4_empty_segment:
  "search_node imp method [] isLast rest node s
     = search_patterns imp method node [] isLast rest
         (filter (\<lambda>p. p = Star)
            (n_patterns (nodes (fst (search_literal imp method node [] isLast s)) ! node)))
         (search_literal imp method node [] isLast s)
   \<and> search_pattern imp method node [] isLast rest (Pat key name m) s = (None, s)
   \<and> search_pattern imp method node part isLast rest Star s
     = search_pattern imp method node [] isLast' rest' Star s"
proof (intro conjI)
  show "search_node imp method [] isLast rest node s
     = search_patterns imp method node [] isLast rest
         (filter (\<lambda>p. p = Star)
            (n_patterns (nodes (fst (search_literal imp method node [] isLast s)) ! node)))
         (search_literal imp method node [] isLast s)"
    unfolding search_node_def Let_def by (rule search_patterns_empty_part)
  show "search_pattern imp method node [] isLast rest (Pat key name m) s = (None, s)"
    by (rule search_pattern_empty_part)
  show "search_pattern imp method node part isLast rest Star s
     = search_pattern imp method node [] isLast' rest' Star s"
    by (rule search_pattern_Star_any_part)
qed

text \<open>
  C4 as stated fails. With the route \<open>/a/*\<close> registered, \<open>search(GET, "/a/")\<close>, whose
  last segment is empty, returns the handler: at the node of \<open>a\<close> the wildcard pattern
  is matched against the empty segment and changes the traversal state.
\<close>

theorem C4_counterexample:
  "snd (Node_search (url_model js_engine) 0 ''GET'' ''/a/'' (trie_of ''/a/*''))
     = Inr [[(7, Some [])]]
   \<and> splitPath_model ''/a/'' = [''a'', []]
   \<and> search_pattern (url_model js_engine) ''GET'' 1 [] True [] Star (trie_of ''/a/*'', [], [])
       \<noteq> (None, (trie_of ''/a/*'', [], []))"
  by (simp add: trie_defs)

subsection \<open>Scenarios\<close>

text \<open>
  C5. After \<open>insert(GET, "/a/:x", h1)\<close> and then \<open>insert(GET, "/a/b", h2)\<close> on an empty
  trie, \<open>search(GET, "/a/b")\<close> returns exactly the pairs \<open>(h1, {x: "b"})\<close> and
  \<open>(h2, {})\<close>, in that order: the earlier registration comes first, although the
  traversal collects \<open>h2\<close> (the literal child) before \<open>h1\<close> (the pattern).
\<close>

theorem C5_param_then_literal:
  "snd (Node_search (url_model rx) 0 ''GET'' ''/a/b''
          (inserts (url_model rx) [(''GET'', ''/a/:x'', h1), (''GET'', ''/a/b'', h2)] empty_trie))
   = Inr [[(h1, Some [(''x'', Some (Str ''b''))]), (h2, Some [])]]"
  by (simp add: trie_defs)


text \<open>
  C7. With \<open>/files/*\<close> and \<open>/files\<close> both registered (in either order),
  \<open>search(method, "/files")\<close> returns the handler of the wildcard route as well as the
  handler registered at the literal node \<open>files\<close>: when the last segment is consumed by
  a literal child, the child's own \<open>*\<close> child is probed too.
\<close>

theorem C7_trailing_wildcard:
  "snd (Node_search (url_model rx) 0 method ''/files''
          (inserts (url_model rx) [(method, ''/files/*'', h1), (method, ''/files'', h2)] empty_trie))
     = Inr [[(h1, Some []), (h2, Some [])]]
   \<and> snd (Node_search (url_model rx) 0 method ''/files''
          (inserts (url_model rx) [(method, ''/files'', h2), (method, ''/files/*'', h1)] empty_trie))
     = Inr [[(h2, Some []), (h1, Some [])]]"
  by (simp add: trie_defs)

text \<open>
  C8. With the route \<open>/js/:filename{[a-z0-9/]+\.js}\<close> registered, and a regex engine that
  accepts \<open>chunk/123.js\<close> for that regex, \<open>search(method, "/js/chunk/123.js")\<close> returns
  the one match \<open>{filename: "chunk/123.js"}\<close>: at the node of \<open>js\<close> the regex is tested
  against the join of \<open>chunk\<close> and \<open>123.js\<close>, the parameter is bound to that join, and
  the handler is collected at the pattern's child while two segments remain.
\<close>

theorem C8_rest_of_path_regexp:
  assumes "rx js_regexp ''chunk/123.js''"
  shows "snd (Node_search (url_model rx) 0 method ''/js/chunk/123.js''
                (inserts (url_model rx) [(method, js_route, h)] empty_trie))
         = Inr [[(h, Some [(''filename'', Some (Str ''chunk/123.js''))])]]"
  using assms by (simp add: trie_defs js_route_def js_regexp_def)

theorem C8_rest_of_path_regexp_witness:
  "js_engine js_regexp ''chunk/123.js''
   \<and> snd (Node_search (url_model js_engine) 0 ''GET'' ''/js/chunk/123.js''
            (inserts (url_model js_engine) [(''GET'', js_route, 7::nat)] empty_trie))
       = Inr [[(7, Some [(''filename'', Some (Str ''chunk/123.js''))])]]"
proof -
  have a: "js_engine js_regexp ''chunk/123.js''"
    by (simp add: js_engine_def)
  show ?thesis
    using a C8_rest_of_path_regexp [of js_engine "''GET''" "7::nat"] by simp
qed

subsection \<open>The event adapter and failures\<close>

lemma streamHandle_ends: "ended (streamHandle env event rs)"
  by (simp add: streamHandle_def stream_end_def split: prod.splits option.splits)

lemma streamHandle_catches_createRequest:
  "createRequest env event = Inl x \<Longrightarrow>
   streamHandle env event rs = stream_end (stream_write ''Internal Server Error'' rs)"
  by (simp add: streamHandle_def streamHandle_try_def)

lemma streamHandle_catches_fetch:
  "createRequest env event = Inr req \<Longrightarrow> fetch env req event = Inl x \<Longrightarrow>
   streamHandle env event rs = stream_end (stream_write ''Internal Server Error'' rs)"
  by (simp add: streamHandle_def streamHandle_try_def)

lemma handle_propagates_createRequest:
  "createRequest env event = Inl x \<Longrightarrow> handle env event = Inl x"
  by (simp add: handle_def)

lemma handle_propagates_fetch:
  "createRequest env event = Inr req \<Longrightarrow> fetch env req event = Inl x \<Longrightarrow>
   handle env event = Inl x"
  by (simp add: handle_def)

text \<open>
  C3 holds for \<open>streamHandle\<close> and fails for \<open>handle\<close>. On the event \<open>GET\<close> with the
  body \<open>x\<close>, for which the construction of the request throws, \<open>streamHandle\<close> writes
  \<open>Internal Server Error\<close> and ends the stream, while the promise of \<open>handle\<close> rejects
  with the exception: nothing catches it and no response is produced.
\<close>

theorem C3_handle_propagates:
  "handle demo_adapter (''GET'', Some ''x'') = Inl ''TypeError''
   \<and> streamHandle demo_adapter (''GET'', Some ''x'') fresh_stream
       = \<lparr>metadata = None, written = [''Internal Server Error''], ended = True\<rparr>"
  by (simp add: handle_def streamHandle_def streamHandle_try_def demo_adapter_def
        fresh_stream_def stream_end_def stream_write_def ascii_upper_def)

subsection \<open>Tries built by insert\<close>





















subsection \<open>What search collects\<close>

text \<open>
  \<open>search\<close> changes the store, but not the part of it the invariant speaks of; the
  lemmas below follow the traversal against the store \<open>h0\<close> it started from. Every
  record collected from a frontier node sits at a node whose keys from the frontier
  node on match the remaining parts, and every node put on the next frontier is a child
  reached over the current part.
\<close>

lemma skeleton_lengths:
  assumes "skeleton h = skeleton h0"
  shows "length (nodes h) = length (nodes h0)" and "length (hsets h) = length (hsets h0)"
proof -
  from assms have "map (\<lambda>n. n\<lparr>n_params := EmptyParams\<rparr>) (nodes h)
                 = map (\<lambda>n. n\<lparr>n_params := EmptyParams\<rparr>) (nodes h0)"
    and "map (\<lambda>s. s\<lparr>hs_params := None\<rparr>) (hsets h) = map (\<lambda>s. s\<lparr>hs_params := None\<rparr>) (hsets h0)"
    by (simp_all add: skeleton_def)
  then show "length (nodes h) = length (nodes h0)" and "length (hsets h) = length (hsets h0)"
    by (auto dest: map_eq_imp_length_eq)
qed


lemma skeleton_handler:
  assumes "skeleton h = skeleton h0" and "r < length (hsets h0)"
  shows "hs_handler (hsets h ! r) = hs_handler (hsets h0 ! r)"
proof -
  let ?f = "\<lambda>s. s\<lparr>hs_params := None\<rparr>"
  from assms(1) have m: "map ?f (hsets h) = map ?f (hsets h0)" by (simp add: skeleton_def)
  have a: "r < length (hsets h)" using assms skeleton_lengths(2) [OF assms(1)] by simp
  have "?f (hsets h ! r) = map ?f (hsets h) ! r" using a by simp
  also have "\<dots> = map ?f (hsets h0) ! r" using m by simp
  also have "\<dots> = ?f (hsets h0 ! r)" using assms(2) by simp
  finally have "hs_handler (?f (hsets h ! r)) = hs_handler (?f (hsets h0 ! r))" by simp
  then show ?thesis by simp
qed























subsection \<open>One record collected more than once\<close>

text \<open>
  Every pass overwrites the \<open>params\<close> field of the record it returns, and nothing else
  writes that field: after any part of the traversal the store is the initial store
  replayed over the log of the passes made so far, and the list of collected records
  has grown by the records of those passes, in order.
\<close>

lemma skeleton_record:
  assumes "skeleton h = skeleton h0" and "r < length (hsets h0)"
  shows "hs_possibleKeys (hsets h ! r) = hs_possibleKeys (hsets h0 ! r)"
    and "hs_score (hsets h ! r) = hs_score (hsets h0 ! r)"
proof -
  let ?f = "\<lambda>s. s\<lparr>hs_params := None\<rparr>"
  from assms(1) have m: "map ?f (hsets h) = map ?f (hsets h0)" by (simp add: skeleton_def)
  have a: "r < length (hsets h)" using assms skeleton_lengths(2) [OF assms(1)] by simp
  have "?f (hsets h ! r) = map ?f (hsets h) ! r" using a by simp
  also have "\<dots> = map ?f (hsets h0) ! r" using m by simp
  also have "\<dots> = ?f (hsets h0 ! r)" using assms(2) by simp
  finally have eq: "?f (hsets h ! r) = ?f (hsets h0 ! r)" .
  from eq have "hs_possibleKeys (?f (hsets h ! r)) = hs_possibleKeys (?f (hsets h0 ! r))" by simp
  then show "hs_possibleKeys (hsets h ! r) = hs_possibleKeys (hsets h0 ! r)" by simp
  from eq have "hs_score (?f (hsets h ! r)) = hs_score (?f (hsets h0 ! r))" by simp
  then show "hs_score (hsets h ! r) = hs_score (hsets h0 ! r)" by simp
qed

lemma pass_bindings_skeleton:
  assumes "skeleton h = skeleton h0" and "r < length (hsets h0)"
  shows "pass_bindings np p (hsets h ! r) = pass_bindings np p (hsets h0 ! r)"
  using skeleton_record [OF assms] by (auto simp: pass_bindings_def)

lemma last_pass_snoc:
  "last_pass (log @ [(a, np, p)]) b = (if b = a then Some (np, p) else last_pass log b)"
  by (simp add: last_pass_def)

lemma replayed_write:
  assumes "replayed h0 log h"
  shows "replayed h0 (log @ [(a, np, p)])
           (upd_hset a (\<lambda>s. s\<lparr>hs_params := Some (pass_bindings np p (hsets h ! a))\<rparr>) h)"
  unfolding replayed_def
proof (intro conjI allI impI)
  from assms have same: "skeleton h = skeleton h0" by (simp add: replayed_def)
  then show "skeleton (upd_hset a (\<lambda>s. s\<lparr>hs_params := Some (pass_bindings np p (hsets h ! a))\<rparr>) h)
             = skeleton h0" by simp
  fix b assume b: "b < length (hsets h0)"
  then have bl: "b < length (hsets h)" using skeleton_lengths(2) [OF same] by simp
  show "hs_params (hsets (upd_hset a
            (\<lambda>s. s\<lparr>hs_params := Some (pass_bindings np p (hsets h ! a))\<rparr>) h) ! b) =
          (case last_pass (log @ [(a, np, p)]) b of
             None \<Rightarrow> hs_params (hsets h0 ! b)
           | Some (np, p) \<Rightarrow> Some (pass_bindings np p (hsets h0 ! b)))"
  proof (cases "b = a")
    case True
    with bl b pass_bindings_skeleton [OF same b] show ?thesis
      by (simp add: upd_hset_def last_pass_snoc)
  next
    case False
    with assms b show ?thesis
      by (simp add: upd_hset_def last_pass_snoc replayed_def)
  qed
qed

lemma replayed_upd_node:
  assumes "replayed h0 log h"
  shows "replayed h0 log (upd_node a (\<lambda>n. n\<lparr>n_params := f n\<rparr>) h)"
proof -
  have "hsets (upd_node a (\<lambda>n. n\<lparr>n_params := f n\<rparr>) h) = hsets h"
    by (simp add: upd_node_def)
  moreover have "skeleton (upd_node a (\<lambda>n. n\<lparr>n_params := f n\<rparr>) h) = skeleton h"
    by simp
  ultimately show ?thesis using assms unfolding replayed_def by simp
qed

lemma getHandlerSets_loop_logged:
  "replayed h0 log h \<Longrightarrow> getHandlerSets_loop imp ms meth np p (h, acc) = (h', acc') \<Longrightarrow>
   \<exists>found. acc' = acc @ found \<and> replayed h0 (log @ map (\<lambda>a. (a, np, p)) found) h'"
proof (induction ms arbitrary: h acc log)
  case Nil
  then show ?case by simp
next
  case (Cons m ms)
  show ?case
  proof (cases "case map_of m meth of Some a \<Rightarrow> Some a | None \<Rightarrow> map_of m (METHOD_NAME_ALL imp)")
    case None
    with Cons.prems have "getHandlerSets_loop imp ms meth np p (h, acc) = (h', acc')" by simp
    from Cons.IH [OF Cons.prems(1) this] show ?thesis .
  next
    case (Some a)
    let ?h1 = "upd_hset a (\<lambda>s. s\<lparr>hs_params := Some (pass_bindings np p (hsets h ! a))\<rparr>) h"
    from Cons.prems(2) Some have
      rec: "getHandlerSets_loop imp ms meth np p (?h1, acc @ [a]) = (h', acc')"
      by (simp add: Let_def pass_bindings_def)
    from Cons.IH [OF replayed_write [OF Cons.prems(1)] rec] obtain found where
      f: "acc' = (acc @ [a]) @ found"
         "replayed h0 ((log @ [(a, np, p)]) @ map (\<lambda>a. (a, np, p)) found) h'"
      by blast
    then have "acc' = acc @ (a # found)"
      and "replayed h0 (log @ map (\<lambda>a. (a, np, p)) (a # found)) h'" by simp_all
    then show ?thesis by blast
  qed
qed

lemma collect_logged:
  assumes "replayed h0 log h" and "collect imp node meth np p (h, hsl) = (h', hsl')"
  shows "hsl' = hsl @ map fst (collect_log imp node meth np p h)"
    and "replayed h0 (log @ collect_log imp node meth np p h) h'"
proof -
  obtain found where
    g: "getHandlerSets imp node meth np p h = (h', found)" and hsl': "hsl' = hsl @ found"
    using assms(2) by (auto simp: collect_def split: prod.splits)
  from g have "getHandlerSets_loop imp (n_methods (nodes h ! node)) meth np p (h, []) = (h', found)"
    by (simp add: getHandlerSets_def)
  from getHandlerSets_loop_logged [OF assms(1) this]
  have r: "replayed h0 (log @ map (\<lambda>a. (a, np, p)) found) h'" by simp
  have cl: "collect_log imp node meth np p h = map (\<lambda>a. (a, np, p)) found"
    using g by (simp add: collect_log_def)
  show "hsl' = hsl @ map fst (collect_log imp node meth np p h)"
    using hsl' cl by (simp add: comp_def)
  show "replayed h0 (log @ collect_log imp node meth np p h) h'" using r cl by simp
qed


lemma search_pattern_Star_logged:
  assumes rep: "replayed h0 log h"
    and run: "search_pattern imp meth node part isLast rps Star (h, hsl, tmp) = (e, (h', hsl', tmp'))"
  shows "hsl' = hsl @ map fst (search_pattern_log imp meth node part isLast rps Star (h, hsl, tmp))
       \<and> replayed h0 (log @ search_pattern_log imp meth node part isLast rps Star (h, hsl, tmp)) h'"
proof (cases "map_of (n_children (nodes h ! node)) ''*''")
  case None
  with run rep show ?thesis by auto
next
  case (Some ast)
  obtain h1 hsl1 where
    c: "collect imp ast meth (n_params (nodes h ! node)) None (h, hsl) = (h1, hsl1)"
    by (cases "collect imp ast meth (n_params (nodes h ! node)) None (h, hsl)") auto
  with run Some have "h' = h1" "hsl' = hsl1" by auto
  with collect_logged [OF rep c] Some show ?thesis by simp
qed

lemma search_pattern_Pat_logged:
  assumes rep: "replayed h0 log h"
    and run: "search_pattern imp meth node part isLast rps (Pat key name m) (h, hsl, tmp)
              = (e, (h', hsl', tmp'))"
  shows "hsl' = hsl @ map fst (search_pattern_log imp meth node part isLast rps (Pat key name m)
                                 (h, hsl, tmp))
       \<and> replayed h0 (log @ search_pattern_log imp meth node part isLast rps (Pat key name m)
                                 (h, hsl, tmp)) h'"
proof (cases "part = []")
  case True
  with run rep show ?thesis by auto
next
  case False
  let ?np = "n_params (nodes h ! node)"
  let ?al = "case ?np of EmptyParams \<Rightarrow> [] | Obj al \<Rightarrow> al"
  show ?thesis
  proof (cases "map_of (n_children (nodes h ! node)) key")
    case None
    with run rep False show ?thesis by (auto simp: Let_def split: if_splits)
  next
    case (Some c)
    show ?thesis
    proof (cases "regexp_and_test imp m rps")
      case True
      obtain h1 hsl1 where
        col: "collect imp c meth ?np (Some (Obj (assign name rps ?al))) (h, hsl) = (h1, hsl1)"
        by (cases "collect imp c meth ?np (Some (Obj (assign name rps ?al))) (h, hsl)") auto
      with run False True Some have "h' = h1" "hsl' = hsl1" by (auto simp: Let_def)
      with collect_logged [OF rep col] False True Some show ?thesis by (simp add: Let_def)
    next
      case noregex: False
      show ?thesis
      proof (cases "true_or_test imp m part")
        case nomatch: False
        with run rep \<open>part \<noteq> []\<close> noregex show ?thesis by (auto simp: Let_def)
      next
        case True
        let ?p' = "Obj (assign name part ?al)"
        show ?thesis
        proof (cases isLast)
          case notlast: False
          with run \<open>part \<noteq> []\<close> noregex True Some have
            res: "h' = upd_node c (\<lambda>n. n\<lparr>n_params := ?p'\<rparr>) h" "hsl' = hsl"
            by (auto simp: Let_def)
          from replayed_upd_node [OF rep, of c "\<lambda>n. ?p'"] res \<open>part \<noteq> []\<close> noregex True Some notlast
          show ?thesis by (simp add: Let_def)
        next
          case last: True
          obtain h1 hsl1 where
            col: "collect imp c meth ?p' (Some ?np) (h, hsl) = (h1, hsl1)"
            by (cases "collect imp c meth ?p' (Some ?np) (h, hsl)") auto
          note s1 = collect_logged [OF rep col]
          show ?thesis
          proof (cases "map_of (n_children (nodes h1 ! c)) ''*''")
            case None
            with run \<open>part \<noteq> []\<close> noregex True Some last col have "h' = h1" "hsl' = hsl1"
              by (auto simp: Let_def)
            with s1 \<open>part \<noteq> []\<close> noregex True Some last col None show ?thesis
              by (simp add: Let_def)
          next
            case ast: (Some ast)
            obtain h2 hsl2 where
              col2: "collect imp ast meth ?p' (Some (n_params (nodes h1 ! node))) (h1, hsl1)
                     = (h2, hsl2)"
              by (cases "collect imp ast meth ?p' (Some (n_params (nodes h1 ! node))) (h1, hsl1)")
                 auto
            with run \<open>part \<noteq> []\<close> noregex True Some last col ast have "h' = h2" "hsl' = hsl2"
              by (auto simp: Let_def)
            with collect_logged [OF s1(2) col2] s1(1) \<open>part \<noteq> []\<close> noregex True Some last col ast
            show ?thesis by (simp add: Let_def)
          qed
        qed
      qed
    qed
  qed
qed

lemma search_pattern_logged:
  assumes "replayed h0 log h"
    and "search_pattern imp meth node part isLast rps pat (h, hsl, tmp) = (e, (h', hsl', tmp'))"
  shows "hsl' = hsl @ map fst (search_pattern_log imp meth node part isLast rps pat (h, hsl, tmp))
       \<and> replayed h0 (log @ search_pattern_log imp meth node part isLast rps pat (h, hsl, tmp)) h'"
proof (cases pat)
  case Star
  with assms show ?thesis using search_pattern_Star_logged by metis
next
  case (Pat key name m)
  with assms show ?thesis using search_pattern_Pat_logged by metis
qed


lemma search_patterns_logged:
  "replayed h0 log h \<Longrightarrow>
   search_patterns imp meth node part isLast rps ps (h, hsl, tmp) = (e, (h', hsl', tmp')) \<Longrightarrow>
   hsl' = hsl @ map fst (search_patterns_log imp meth node part isLast rps ps (h, hsl, tmp))
   \<and> replayed h0 (log @ search_patterns_log imp meth node part isLast rps ps (h, hsl, tmp)) h'"
proof (induction ps arbitrary: h hsl tmp log)
  case Nil
  then show ?case by simp
next
  case (Cons pat ps)
  obtain e1 h1 hsl1 tmp1 where
    st: "search_pattern imp meth node part isLast rps pat (h, hsl, tmp) = (e1, (h1, hsl1, tmp1))"
    by (metis prod_cases3)
  note s1 = search_pattern_logged [OF Cons.prems(1) st]
  show ?case
  proof (cases e1)
    case (Some err)
    with Cons.prems(2) st have "h' = h1" "hsl' = hsl1" by simp_all
    with s1 st Some show ?thesis by simp
  next
    case None
    with Cons.prems(2) st have
      rec: "search_patterns imp meth node part isLast rps ps (h1, hsl1, tmp1)
            = (e, (h', hsl', tmp'))" by simp
    from s1 have r1: "replayed h0
        (log @ search_pattern_log imp meth node part isLast rps pat (h, hsl, tmp)) h1" by simp
    from Cons.IH [OF r1 rec] s1 st None show ?thesis by simp
  qed
qed

lemma search_literal_logged:
  assumes rep: "replayed h0 log h"
    and run: "search_literal imp meth node part isLast (h, hsl, tmp) = (h', hsl', tmp')"
  shows "hsl' = hsl @ map fst (search_literal_log imp meth node part isLast (h, hsl, tmp))
       \<and> replayed h0 (log @ search_literal_log imp meth node part isLast (h, hsl, tmp)) h'"
proof (cases "map_of (n_children (nodes h ! node)) part")
  case None
  with run rep show ?thesis by auto
next
  case (Some nxt)
  let ?h1 = "upd_node nxt (\<lambda>n. n\<lparr>n_params := n_params (nodes h ! node)\<rparr>) h"
  have rep1: "replayed h0 log ?h1" by (rule replayed_upd_node [OF rep])
  show ?thesis
  proof (cases isLast)
    case False
    with run Some have "h' = ?h1" "hsl' = hsl" by (auto simp: Let_def)
    with rep1 Some False show ?thesis by (simp add: Let_def)
  next
    case True
    show ?thesis
    proof (cases "map_of (n_children (nodes ?h1 ! nxt)) ''*''")
      case None
      obtain h3 hsl3 where
        col: "collect imp nxt meth (n_params (nodes ?h1 ! node)) None (?h1, hsl) = (h3, hsl3)"
        by (cases "collect imp nxt meth (n_params (nodes ?h1 ! node)) None (?h1, hsl)") auto
      with run Some True None have "h' = h3" "hsl' = hsl3" by (auto simp: Let_def)
      with collect_logged [OF rep1 col] Some True None show ?thesis by (simp add: Let_def)
    next
      case ast: (Some ast)
      obtain h2 hsl2 where
        col2: "collect imp ast meth (n_params (nodes ?h1 ! node)) None (?h1, hsl) = (h2, hsl2)"
        by (cases "collect imp ast meth (n_params (nodes ?h1 ! node)) None (?h1, hsl)") auto
      note s2 = collect_logged [OF rep1 col2]
      obtain h3 hsl3 where
        col: "collect imp nxt meth (n_params (nodes h2 ! node)) None (h2, hsl2) = (h3, hsl3)"
        by (cases "collect imp nxt meth (n_params (nodes h2 ! node)) None (h2, hsl2)") auto
      with run Some True ast col2 have "h' = h3" "hsl' = hsl3" by (auto simp: Let_def)
      with collect_logged [OF s2(2) col] s2(1) Some True ast col2 show ?thesis
        by (simp add: Let_def)
    qed
  qed
qed

lemma search_node_logged:
  assumes rep: "replayed h0 log h"
    and run: "search_node imp meth part isLast rps node (h, hsl, tmp) = (e, (h', hsl', tmp'))"
  shows "hsl' = hsl @ map fst (search_node_log imp meth part isLast rps node (h, hsl, tmp))
       \<and> replayed h0 (log @ search_node_log imp meth part isLast rps node (h, hsl, tmp)) h'"
proof -
  obtain h1 hsl1 tmp1 where
    lit: "search_literal imp meth node part isLast (h, hsl, tmp) = (h1, hsl1, tmp1)"
    by (metis prod_cases3)
  note s1 = search_literal_logged [OF rep lit]
  have pats: "search_patterns imp meth node part isLast rps (n_patterns (nodes h1 ! node))
                (h1, hsl1, tmp1) = (e, (h', hsl', tmp'))"
    using run lit by (simp add: search_node_def)
  from s1 have r1: "replayed h0
      (log @ search_literal_log imp meth node part isLast (h, hsl, tmp)) h1" by simp
  from search_patterns_logged [OF r1 pats] s1 lit show ?thesis
    by (simp add: search_node_log_def)
qed

lemma search_nodes_logged:
  "replayed h0 log h \<Longrightarrow>
   search_nodes imp meth part isLast rps cur (h, hsl, tmp) = (e, (h', hsl', tmp')) \<Longrightarrow>
   hsl' = hsl @ map fst (search_nodes_log imp meth part isLast rps cur (h, hsl, tmp))
   \<and> replayed h0 (log @ search_nodes_log imp meth part isLast rps cur (h, hsl, tmp)) h'"
proof (induction cur arbitrary: h hsl tmp log)
  case Nil
  then show ?case by simp
next
  case (Cons node cur)
  obtain e1 h1 hsl1 tmp1 where
    st: "search_node imp meth part isLast rps node (h, hsl, tmp) = (e1, (h1, hsl1, tmp1))"
    by (metis prod_cases3)
  note s1 = search_node_logged [OF Cons.prems(1) st]
  show ?case
  proof (cases e1)
    case (Some err)
    with Cons.prems(2) st have "h' = h1" "hsl' = hsl1" by simp_all
    with s1 st Some show ?thesis by simp
  next
    case None
    with Cons.prems(2) st have
      rec: "search_nodes imp meth part isLast rps cur (h1, hsl1, tmp1) = (e, (h', hsl', tmp'))"
      by simp
    from s1 have r1: "replayed h0
        (log @ search_node_log imp meth part isLast rps node (h, hsl, tmp)) h1" by simp
    from Cons.IH [OF r1 rec] s1 st None show ?thesis by simp
  qed
qed

lemma search_parts_logged:
  "replayed h0 log h \<Longrightarrow> search_parts imp meth parts cur (h, hsl) = (e, (h', hsl')) \<Longrightarrow>
   hsl' = hsl @ map fst (search_parts_log imp meth parts cur (h, hsl))
   \<and> replayed h0 (log @ search_parts_log imp meth parts cur (h, hsl)) h'"
proof (induction parts arbitrary: cur h hsl log)
  case Nil
  then show ?case by simp
next
  case (Cons part rest)
  obtain e1 h1 hsl1 tmp1 where
    st: "search_nodes imp meth part (rest = []) (join_slash (part # rest)) cur (h, hsl, [])
         = (e1, (h1, hsl1, tmp1))"
    by (metis prod_cases3)
  note s1 = search_nodes_logged [OF Cons.prems(1) st]
  show ?case
  proof (cases e1)
    case (Some err)
    with Cons.prems(2) st have "h' = h1" "hsl' = hsl1" by simp_all
    with s1 st Some show ?thesis by simp
  next
    case None
    with Cons.prems(2) st have
      rec: "search_parts imp meth rest tmp1 (h1, hsl1) = (e, (h', hsl'))" by simp
    from s1 have r1: "replayed h0
        (log @ search_nodes_log imp meth part (rest = []) (join_slash (part # rest)) cur
                 (h, hsl, [])) h1" by simp
    from Cons.IH [OF r1 rec] s1 st None show ?thesis by simp
  qed
qed

lemma replayed_start: "replayed h [] (upd_node this (\<lambda>n. n\<lparr>n_params := EmptyParams\<rparr>) h)"
proof (rule replayed_upd_node)
  show "replayed h [] h" by (simp add: replayed_def last_pass_def)
qed

lemma last_pass_member:
  assumes "a \<in> fst ` set log"
  shows "\<exists>np p. last_pass log a = Some (np, p)"
proof -
  from assms have "a \<in> fst ` set (rev log)" by simp
  then have "map_of (rev log) a \<noteq> None" by (simp add: map_of_eq_None_iff)
  then show ?thesis by (auto simp: last_pass_def)
qed

text \<open>
  C10. A search that returns makes a sequence of resolution passes (its log); the
  returned sequence holds the records of those passes, sorted by score. At every
  position, the parameters returned are the \<open>params\<close> field of the record in the final
  store, and that field is the bindings computed by the last pass over that record, from
  the \<open>nodeParams\<close> and \<open>params\<close> of the last branch that collected it. So a record
  collected more than once appears as often, every time with the same object, which
  carries the bindings of the last branch and not those of the branch of the occurrence.
\<close>

theorem C10_last_pass_wins:
  assumes run: "Node_search imp this meth path h = (h', Inr [res])"
    and valid: "\<forall>e \<in> set (search_log imp this meth path h). fst e < length (hsets h)"
  shows "\<exists>refs. mset refs = mset (map fst (search_log imp this meth path h))
           \<and> length res = length refs
           \<and> (\<forall>i < length refs. \<exists>np p.
                  last_pass (search_log imp this meth path h) (refs ! i) = Some (np, p)
                  \<and> hs_params (hsets h' ! (refs ! i))
                      = Some (pass_bindings np p (hsets h ! (refs ! i)))
                  \<and> res ! i = (hs_handler (hsets h ! (refs ! i)),
                               Some (pass_bindings np p (hsets h ! (refs ! i)))))"
proof -
  let ?h0 = "upd_node this (\<lambda>n. n\<lparr>n_params := EmptyParams\<rparr>) h"
  let ?log = "search_log imp this meth path h"
  obtain e h1 hsl where
    sp: "search_parts imp meth (splitPath imp path) [this] (?h0, []) = (e, (h1, hsl))"
    by (metis prod_cases3)
  from search_parts_logged [OF replayed_start sp]
  have hsl: "hsl = map fst ?log" and rep: "replayed h ?log h1"
    by (simp_all add: search_log_def)
  let ?refs = "if length hsl > 1 then sort_key (\<lambda>a. hs_score (hsets h1 ! a)) hsl else hsl"
  from run sp have e: "e = None" and h': "h' = h1"
    and res: "res = map (\<lambda>a. (hs_handler (hsets h1 ! a), hs_params (hsets h1 ! a))) ?refs"
    by (auto simp: Node_search_def search_sets_def split: option.splits)
  have m: "mset ?refs = mset (map fst ?log)" using hsl by simp
  have same: "skeleton h1 = skeleton h" using rep by (simp add: replayed_def)
  have each: "\<forall>i < length ?refs. \<exists>np p.
                  last_pass ?log (?refs ! i) = Some (np, p)
                  \<and> hs_params (hsets h' ! (?refs ! i))
                      = Some (pass_bindings np p (hsets h ! (?refs ! i)))
                  \<and> res ! i = (hs_handler (hsets h ! (?refs ! i)),
                               Some (pass_bindings np p (hsets h ! (?refs ! i))))"
  proof (intro allI impI)
    fix i assume i: "i < length ?refs"
    let ?a = "?refs ! i"
    from i have "?a \<in> set ?refs" by (rule nth_mem)
    then have "?a \<in># mset ?refs" by simp
    with m have "?a \<in> set (map fst ?log)" by (metis set_mset_mset)
    then have mem: "?a \<in> fst ` set ?log" by simp
    with valid have a: "?a < length (hsets h)" by auto
    from last_pass_member [OF mem] obtain np p where lp: "last_pass ?log ?a = Some (np, p)"
      by blast
    from rep a lp have par: "hs_params (hsets h1 ! ?a) = Some (pass_bindings np p (hsets h ! ?a))"
      by (simp add: replayed_def)
    have hd: "hs_handler (hsets h1 ! ?a) = hs_handler (hsets h ! ?a)"
      by (rule skeleton_handler [OF same a])
    have "res ! i = (hs_handler (hsets h1 ! ?a), hs_params (hsets h1 ! ?a))"
      using i res by simp
    with lp par hd h' show "\<exists>np p.
                  last_pass ?log ?a = Some (np, p)
                  \<and> hs_params (hsets h' ! ?a) = Some (pass_bindings np p (hsets h ! ?a))
                  \<and> res ! i = (hs_handler (hsets h ! ?a),
                               Some (pass_bindings np p (hsets h ! ?a)))"
      by simp
  qed
  have "length res = length ?refs" using res by simp
  with m each show ?thesis by blast
qed

theorem C10_last_pass_wins_witness:
  "Node_search (url_model js_engine) 0 ''GET'' ''/a/:x'' (trie_of ''/a/:x'')
     = (fst (Node_search (url_model js_engine) 0 ''GET'' ''/a/:x'' (trie_of ''/a/:x'')),
        Inr [[(7, Some [(''x'', Some (Str '':x''))]), (7, Some [(''x'', Some (Str '':x''))])]])
   \<and> search_log (url_model js_engine) 0 ''GET'' ''/a/:x'' (trie_of ''/a/:x'')
     = [(0, EmptyParams, None), (0, Obj [(''x'', '':x'')], Some EmptyParams)]
   \<and> pass_bindings EmptyParams None (hsets (trie_of ''/a/:x'') ! 0) = []
   \<and> pass_bindings (Obj [(''x'', '':x'')]) (Some EmptyParams) (hsets (trie_of ''/a/:x'') ! 0)
     = [(''x'', Some (Str '':x''))]
   \<and> (\<exists>refs. mset refs = mset [0::nat, 0]
         \<and> (\<exists>np p. last_pass [(0, EmptyParams, None), (0, Obj [(''x'', '':x'')], Some EmptyParams)]
                       (refs ! 0) = Some (np, p)
                \<and> [(7::nat, Some [(''x'', Some (Str '':x''))]), (7, Some [(''x'', Some (Str '':x''))])] ! 0
                    = (hs_handler (hsets (trie_of ''/a/:x'') ! (refs ! 0)),
                       Some (pass_bindings np p (hsets (trie_of ''/a/:x'') ! (refs ! 0)))))
         \<and> (\<exists>np p. last_pass [(0, EmptyParams, None), (0, Obj [(''x'', '':x'')], Some EmptyParams)]
                       (refs ! 1) = Some (np, p)
                \<and> [(7::nat, Some [(''x'', Some (Str '':x''))]), (7, Some [(''x'', Some (Str '':x''))])] ! 1
                    = (hs_handler (hsets (trie_of ''/a/:x'') ! (refs ! 1)),
                       Some (pass_bindings np p (hsets (trie_of ''/a/:x'') ! (refs ! 1))))))"
proof -
  let ?E = "url_model js_engine"
  let ?t = "trie_of ''/a/:x''"
  let ?res = "[(7::nat, Some [(''x'', Some (Str '':x''))]), (7, Some [(''x'', Some (Str '':x''))])]"
  let ?log = "[(0::nat, EmptyParams, None), (0, Obj [(''x'', '':x'')], Some EmptyParams)]"
  have a: "Node_search ?E 0 ''GET'' ''/a/:x'' ?t
             = (fst (Node_search ?E 0 ''GET'' ''/a/:x'' ?t), Inr [?res])"
    by (simp add: trie_defs)
  have l: "search_log ?E 0 ''GET'' ''/a/:x'' ?t = ?log"
    by (simp add: trie_defs search_log_def search_node_log_def collect_log_def)
  have b: "\<forall>e \<in> set (search_log ?E 0 ''GET'' ''/a/:x'' ?t). fst e < length (hsets ?t)"
    unfolding l by (simp add: trie_defs)
  have p1: "pass_bindings EmptyParams None (hsets ?t ! 0) = []"
    by (simp add: pass_bindings_def)
  have p2: "pass_bindings (Obj [(''x'', '':x'')]) (Some EmptyParams) (hsets ?t ! 0)
            = [(''x'', Some (Str '':x''))]"
    by (simp add: pass_bindings_def trie_defs)
  from C10_last_pass_wins [OF a b] obtain refs where
    r: "mset refs = mset (map fst (search_log ?E 0 ''GET'' ''/a/:x'' ?t))"
       "length ?res = length refs"
       "\<forall>i < length refs. \<exists>np p.
           last_pass (search_log ?E 0 ''GET'' ''/a/:x'' ?t) (refs ! i) = Some (np, p)
           \<and> hs_params (hsets (fst (Node_search ?E 0 ''GET'' ''/a/:x'' ?t)) ! (refs ! i))
               = Some (pass_bindings np p (hsets ?t ! (refs ! i)))
           \<and> ?res ! i = (hs_handler (hsets ?t ! (refs ! i)),
                        Some (pass_bindings np p (hsets ?t ! (refs ! i))))"
    by blast
  from r(1) have m: "mset refs = mset [0::nat, 0]" unfolding l by simp
  from r(2) have "length refs = 2" by simp
  then have "0 < length refs" "1 < length refs" by simp_all
  with r(3) have
    "\<exists>np p. last_pass ?log (refs ! 0) = Some (np, p)
       \<and> ?res ! 0 = (hs_handler (hsets ?t ! (refs ! 0)),
                    Some (pass_bindings np p (hsets ?t ! (refs ! 0))))"
    "\<exists>np p. last_pass ?log (refs ! 1) = Some (np, p)
       \<and> ?res ! 1 = (hs_handler (hsets ?t ! (refs ! 1)),
                    Some (pass_bindings np p (hsets ?t ! (refs ! 1))))"
    unfolding l by blast+
  with m a l p1 p2 show ?thesis by blast
qed

end
